theory Spec2Isabelle
  imports Main "HOL-Library.Word"
begin

unbundle bit_operations_syntax

section \<open>Data model of package audio\<close>

type_synonym byte = "8 word"
type_synonym uint16 = "16 word"
type_synonym uint32 = "32 word"

text \<open>A Go array \<^verbatim>\<open>[4]byte\<close> has exactly four elements.\<close>

type_synonym byte4 = "byte \<times> byte \<times> byte \<times> byte"

text \<open>
  Go \<^verbatim>\<open>error\<close> values. \<^verbatim>\<open>io.EOF\<close> and \<^verbatim>\<open>io.ErrUnexpectedEOF\<close> are the two
  sentinels the code compares against or can receive from \<^verbatim>\<open>binary.Read\<close>; every other
  error is made by \<^verbatim>\<open>errors.New\<close> or \<^verbatim>\<open>fmt.Errorf\<close> and is identified by its message.
\<close>

datatype error = EOF | ErrUnexpectedEOF | New string

fun Error :: "error \<Rightarrow> string" where
  "Error EOF = ''EOF''"
| "Error ErrUnexpectedEOF = ''unexpected EOF''"
| "Error (New msg) = msg"

text \<open>\<^verbatim>\<open>fmt.Errorf(prefix + "%v", err)\<close>\<close>

definition Errorf :: "string \<Rightarrow> error \<Rightarrow> error" where
  "Errorf prefix err = New (prefix @ Error err)"

subsection \<open>Fixed values applicable to PCM audio files\<close>

definition chunkID :: string where "chunkID = ''RIFF''"
definition format :: string where "format = ''WAVE''"
definition subChunkID :: string where "subChunkID = ''fmt ''"
definition subChunk1Size :: uint32 where "subChunk1Size = 16"
definition audioFormat :: uint16 where "audioFormat = 1"
definition subChunk2ID :: string where "subChunk2ID = ''data''"
definition mono_mode :: uint16 where "mono_mode = 1"
definition stereo :: uint16 where "stereo = 2"

text \<open>\<^verbatim>\<open>[]byte(s)\<close>, \<^verbatim>\<open>a[:]\<close> and \<^verbatim>\<open>[4]byte(slice)\<close>. The last one panics in Go on a slice
  shorter than four bytes; the code applies it to the four-letter constants only, and
  the model leaves it unspecified elsewhere.\<close>

definition bytes_of :: "string \<Rightarrow> byte list" where
  "bytes_of s = map of_char s"

fun slice4 :: "byte4 \<Rightarrow> byte list" where
  "slice4 (a, b, c, d) = [a, b, c, d]"

fun arr4 :: "byte list \<Rightarrow> byte4" where
  "arr4 (a # b # c # d # rest) = (a, b, c, d)"

subsection \<open>headers: the fixed fields of a WAV file\<close>

record headers =
  ChunkID :: byte4
  ChunkSize :: uint32
  Format :: byte4
  SubChunk1ID :: byte4
  SubChunk1Size :: uint32
  AudioFormat :: uint16
  NumChannels :: uint16
  SampleRate :: uint32
  ByteRate :: uint32
  BlockAlign :: uint16
  BitsPerSample :: uint16
  SubChunk2ID :: byte4
  SubChunk2Size :: uint32

subsection \<open>Byte sources and sinks\<close>

text \<open>
  The \<^verbatim>\<open>io.ReadSeeker\<close> behind a handle is an in-memory byte source with a cursor, as
  \<^verbatim>\<open>bytes.Reader\<close> or a regular file is: \<open>bytes\<close> is the whole content (the 44 header
  bytes and the payload after them), \<open>off\<close> the cursor. Two faults can be injected so
  that the I/O error returns of the code are branches of the model: a source that is not
  \<open>seekable\<close> fails every Seek, and a source with \<open>fault = Some k\<close> fails every Read
  issued at an offset of at least \<open>k\<close>.
\<close>

record reader =
  bytes :: "byte list"
  off :: nat
  seekable :: bool
  fault :: "nat option"

definition ErrIO :: error where
  "ErrIO = New ''input/output error''"

definition ErrShortWrite :: error where
  "ErrShortWrite = New ''short write''"

definition faulty :: "reader \<Rightarrow> bool" where
  "faulty r = (case fault r of None \<Rightarrow> False | Some k \<Rightarrow> k \<le> off r)"

text \<open>
  \<^verbatim>\<open>r.Read(buf)\<close>: the buffer after the call, the number of bytes read, the error and
  the source after the call. At the end of the content it returns 0 and \<^verbatim>\<open>io.EOF\<close>;
  before it, it copies as many bytes as the buffer takes and the content still has.
\<close>

definition Read :: "reader \<Rightarrow> byte list \<Rightarrow> byte list \<times> nat \<times> error option \<times> reader" where
  "Read r buf =
     (if faulty r then (buf, 0, Some ErrIO, r)
      else if length (bytes r) \<le> off r then (buf, 0, Some EOF, r)
      else
        let n = min (length buf) (length (bytes r) - off r)
        in (take n (drop (off r) (bytes r)) @ drop n buf, n, None, r\<lparr>off := off r + n\<rparr>))"

text \<open>\<^verbatim>\<open>r.Seek(offset, io.SeekStart)\<close>\<close>

definition Seek :: "reader \<Rightarrow> nat \<Rightarrow> error option \<times> reader" where
  "Seek r offset =
     (if seekable r then (None, r\<lparr>off := offset\<rparr>) else (Some ErrIO, r))"

text \<open>
  \<^verbatim>\<open>io.ReadFull\<close> with a buffer of \<open>n\<close> bytes, as \<^verbatim>\<open>binary.Read\<close> calls it: it reads
  until the buffer is full or a Read fails; \<^verbatim>\<open>io.EOF\<close> after some but not all bytes
  becomes \<^verbatim>\<open>io.ErrUnexpectedEOF\<close>. A Read of this source that returns fewer bytes than
  asked has drained it, so the second Read is the last one.
\<close>

definition ReadFull :: "reader \<Rightarrow> nat \<Rightarrow> (error + byte list) \<times> reader" where
  "ReadFull r n =
     (case Read r (replicate n 0) of (buf, k, err, r') \<Rightarrow>
        if n \<le> k then (Inr buf, r')
        else (case err of
                Some e \<Rightarrow> (Inl e, r')
              | None \<Rightarrow>
                 (case Read r' (drop k buf) of (buf', k', err', r'') \<Rightarrow>
                    (Inl (case err' of
                            Some e' \<Rightarrow> if e' = EOF \<and> 0 < k then ErrUnexpectedEOF else e'
                          | None \<Rightarrow> ErrUnexpectedEOF), r''))))"

text \<open>
  The \<^verbatim>\<open>io.Writer\<close> is a sink that appends. \<open>room = None\<close> is a sink without limit
  (\<^verbatim>\<open>bytes.Buffer\<close>, a file on a disk with space); \<open>room = Some k\<close> accepts \<open>k\<close> more
  bytes and then fails with a short write.
\<close>

record writer =
  out :: "byte list"
  room :: "nat option"

definition Write :: "writer \<Rightarrow> byte list \<Rightarrow> error option \<times> writer" where
  "Write w p =
     (case room w of
        None \<Rightarrow> (None, w\<lparr>out := out w @ p\<rparr>)
      | Some k \<Rightarrow>
          if length p \<le> k then (None, w\<lparr>out := out w @ p, room := Some (k - length p)\<rparr>)
          else (Some ErrShortWrite, w\<lparr>out := out w @ take k p, room := Some 0\<rparr>))"

subsection \<open>The 44-byte little-endian layout (encoding/binary)\<close>

definition le16 :: "uint16 \<Rightarrow> byte list" where
  "le16 v = [ucast v, ucast (drop_bit 8 v)]"

definition le32 :: "uint32 \<Rightarrow> byte list" where
  "le32 v = [ucast v, ucast (drop_bit 8 v), ucast (drop_bit 16 v), ucast (drop_bit 24 v)]"

fun Uint16 :: "byte list \<Rightarrow> uint16" where
  "Uint16 (a # b # rest) = ucast a OR push_bit 8 (ucast b)"

fun Uint32 :: "byte list \<Rightarrow> uint32" where
  "Uint32 (a # b # c # d # rest) =
     ucast a OR push_bit 8 (ucast b) OR push_bit 16 (ucast c) OR push_bit 24 (ucast d)"

text \<open>\<^verbatim>\<open>binary.Write(w, binary.LittleEndian, h)\<close> encodes the fields in declaration order,
  without padding, and hands the 44 bytes to the sink in one Write.\<close>

definition encode :: "headers \<Rightarrow> byte list" where
  "encode h =
     slice4 (ChunkID h) @ le32 (ChunkSize h) @ slice4 (Format h) @ slice4 (SubChunk1ID h)
     @ le32 (SubChunk1Size h) @ le16 (AudioFormat h) @ le16 (NumChannels h)
     @ le32 (SampleRate h) @ le32 (ByteRate h) @ le16 (BlockAlign h)
     @ le16 (BitsPerSample h) @ slice4 (SubChunk2ID h) @ le32 (SubChunk2Size h)"

definition binary_Write :: "writer \<Rightarrow> headers \<Rightarrow> error option \<times> writer" where
  "binary_Write w h = Write w (encode h)"

text \<open>\<^verbatim>\<open>binary.Read(r, binary.LittleEndian, &h)\<close> reads 44 bytes with \<^verbatim>\<open>io.ReadFull\<close>
  and decodes the fields at their offsets.\<close>

definition decode :: "byte list \<Rightarrow> headers" where
  "decode bs =
     \<lparr>ChunkID = arr4 bs,
      ChunkSize = Uint32 (drop 4 bs),
      Format = arr4 (drop 8 bs),
      SubChunk1ID = arr4 (drop 12 bs),
      SubChunk1Size = Uint32 (drop 16 bs),
      AudioFormat = Uint16 (drop 20 bs),
      NumChannels = Uint16 (drop 22 bs),
      SampleRate = Uint32 (drop 24 bs),
      ByteRate = Uint32 (drop 28 bs),
      BlockAlign = Uint16 (drop 32 bs),
      BitsPerSample = Uint16 (drop 34 bs),
      SubChunk2ID = arr4 (drop 36 bs),
      SubChunk2Size = Uint32 (drop 40 bs)\<rparr>"

definition binary_Read :: "reader \<Rightarrow> (error + headers) \<times> reader" where
  "binary_Read r =
     (case ReadFull r 44 of
        (Inl err, r') \<Rightarrow> (Inl err, r')
      | (Inr bs, r') \<Rightarrow> (Inr (decode bs), r'))"

section \<open>PCMAudio\<close>

text \<open>The handle embeds the headers and holds the byte source and the \<open>valid\<close> flag.\<close>

record PCMAudio = headers +
  data :: reader
  valid :: bool

text \<open>NewPCMAudio receives the byte source and completes the headers fields.\<close>

definition NewPCMAudio :: "reader \<Rightarrow> error + PCMAudio" where
  "NewPCMAudio d =
     (case binary_Read d of
        (Inl err, d') \<Rightarrow>
          Inl (Errorf ''could not read and parse the recieved data: '' err)
      | (Inr h, d') \<Rightarrow>
          Inr (headers.extend h (PCMAudio.fields d' False)))"

text \<open>Validate returns \<^verbatim>\<open>(bool, error)\<close> and sets the flag of the handle on success only.\<close>

definition Validate :: "PCMAudio \<Rightarrow> (bool \<times> error option) \<times> PCMAudio" where
  "Validate p =
     (if slice4 (ChunkID p) \<noteq> bytes_of chunkID then
        ((False, Some (New ''RIFF header doesn't match'')), p)
      else if slice4 (Format p) \<noteq> bytes_of format then
        ((False, Some (New ''audio format doesn't match'')), p)
      else if slice4 (SubChunk1ID p) \<noteq> bytes_of subChunkID then
        ((False, Some (New ''subchunk fmt doesn't match'')), p)
      else if SubChunk1Size p \<noteq> subChunk1Size \<or> AudioFormat p \<noteq> audioFormat then
        ((False, Some (New ''provided data is not PCM audio'')), p)
      else if slice4 (SubChunk2ID p) \<noteq> bytes_of subChunk2ID then
        ((False, Some (New ''data header doesn't match'')), p)
      else ((True, None), p\<lparr>valid := True\<rparr>))"

text \<open>chooseMode figures out which audio mode a new audio should have.\<close>

definition chooseMode :: "PCMAudio \<Rightarrow> PCMAudio \<Rightarrow> uint16" where
  "chooseMode left right =
     (if NumChannels left = mono_mode \<and> NumChannels right = mono_mode then mono_mode
      else stereo)"

text \<open>checkRequiredParams validates the required WAVE properties of both handles.\<close>

definition checkRequiredParams :: "PCMAudio \<Rightarrow> PCMAudio \<Rightarrow> error option" where
  "checkRequiredParams left right =
     (if \<not> valid left \<or> \<not> valid right then
        Some (New ''validate each audio file first'')
      else if SampleRate left \<noteq> SampleRate right then
        Some (New ''rate of both audio files must match'')
      else if BitsPerSample left \<noteq> BitsPerSample right then
        Some (New ''bits per sample of both audio files must match'')
      else if NumChannels left \<noteq> NumChannels right then
        Some (New ''number of channels of both audio files must match'')
      else None)"

section \<open>Merge\<close>

text \<open>
  One pass of the \<^verbatim>\<open>for\<close> loop of Merge over the loop's variables: the two sample
  buffers, the two sources and the sink. A pass ends the call (\<open>Return\<close>, by an error
  \<^verbatim>\<open>return\<close> or by \<^verbatim>\<open>break\<close>, after which Merge returns \<^verbatim>\<open>nil\<close>) or hands the
  variables to the next pass (\<open>Continue\<close>).
\<close>

type_synonym merge_vars = "byte list \<times> byte list \<times> reader \<times> reader \<times> writer"
type_synonym merge_result = "error option \<times> reader \<times> reader \<times> writer"

datatype flow = Continue merge_vars | Return merge_result

definition Merge_pass :: "nat \<Rightarrow> merge_vars \<Rightarrow> flow" where
  "Merge_pass sampleSize vars =
     (case vars of (bufLeft, bufRight, left, right, output) \<Rightarrow>
      case Read left bufLeft of (bufLeft', nL, errL, left') \<Rightarrow>
      if errL \<noteq> None \<and> errL \<noteq> Some EOF then
        Return (Some (Errorf ''error reading left: '' (the errL)), left', right, output)
      else
      case Read right bufRight of (bufRight', nR, errR, right') \<Rightarrow>
      if errR \<noteq> None \<and> errR \<noteq> Some EOF then
        Return (Some (Errorf ''error reading right: '' (the errR)), left', right', output)
      else if (errL = Some EOF \<or> nL = 0) \<and> (errR = Some EOF \<or> nR = 0) then
        Return (None, left', right', output)
      else
      case Write output (if nL = sampleSize then bufLeft' else replicate sampleSize 0) of
        (Some errW, output') \<Rightarrow>
          Return (Some (Errorf (if nL = sampleSize then ''error writing left sample: ''
                                else ''error writing zero sample for left: '') errW),
                  left', right', output')
      | (None, output') \<Rightarrow>
      case Write output' (if nR = sampleSize then bufRight' else replicate sampleSize 0) of
        (Some errW, output'') \<Rightarrow>
          Return (Some (Errorf (if nR = sampleSize then ''error writing right sample: ''
                                else ''error writing zero sample for right: '') errW),
                  left', right', output'')
      | (None, output'') \<Rightarrow>
      if errL = Some EOF \<or> errR = Some EOF then Return (None, left', right', output'')
      else Continue (bufLeft', bufRight', left', right', output''))"

definition remaining :: "reader \<Rightarrow> nat" where
  "remaining r = length (bytes r) - off r"

function Merge_loop :: "nat \<Rightarrow> merge_vars \<Rightarrow> merge_result" where
  "Merge_loop sampleSize vars =
     (case Merge_pass sampleSize vars of
        Return res \<Rightarrow> res
      | Continue vars' \<Rightarrow> Merge_loop sampleSize vars')"
  by pat_completeness auto
termination
proof (relation "measure (\<lambda>(sampleSize, bl, br, l, r, w). remaining l + remaining r)")
  show "wf (measure (\<lambda>(sampleSize, bl, br, l, r, w). remaining l + remaining r))"
    by simp
next
  fix sampleSize :: nat and vars vars' :: merge_vars
  assume pass: "Merge_pass sampleSize vars = Continue vars'"
  obtain bl br l r w where vars: "vars = (bl, br, l, r, w)"
    by (cases vars) auto
  obtain bl' br' l' r' w' where vars': "vars' = (bl', br', l', r', w')"
    by (cases vars') auto
  obtain b1 nL errL l1 where L: "Read l bl = (b1, nL, errL, l1)"
    by (cases "Read l bl") auto
  obtain b2 nR errR r1 where R: "Read r br = (b2, nR, errR, r1)"
    by (cases "Read r br") auto
  from pass vars vars' L R have eL: "errL = None" and eR: "errR = None"
    and n: "nL \<noteq> 0 \<or> nR \<noteq> 0" and l': "l' = l1" and r': "r' = r1"
    by (auto simp: Merge_pass_def split: if_splits prod.splits option.splits)
  from L eL have "remaining l1 + nL = remaining l"
    by (auto simp: Read_def remaining_def Let_def split: if_splits)
  moreover from R eR have "remaining r1 + nR = remaining r"
    by (auto simp: Read_def remaining_def Let_def split: if_splits)
  ultimately have "remaining l' + remaining r' < remaining l + remaining r"
    using n l' r' by arith
  then show "((sampleSize, vars'), (sampleSize, vars))
      \<in> measure (\<lambda>(sampleSize, bl, br, l, r, w). remaining l + remaining r)"
    by (simp add: vars vars')
qed

declare Merge_loop.simps [simp del]

text \<open>
  Merge creates a single stereo file made from 2 mono files. The call returns the error
  (\<open>None\<close> for \<^verbatim>\<open>nil\<close>) together with the two handles and the sink as it leaves them.
  The two handles are distinct handles over distinct sources. \<open>Merge_newHeaders\<close> is the
  \<^verbatim>\<open>newHeaders\<close> value the method builds from \<^verbatim>\<open>newChunkSize\<close>, \<^verbatim>\<open>newBlockAlign\<close> and
  \<^verbatim>\<open>newSubChunk2Size\<close>.
\<close>

definition Merge_newHeaders :: "PCMAudio \<Rightarrow> PCMAudio \<Rightarrow> headers" where
  "Merge_newHeaders p other =
     (let newChunkSize = 36 + SubChunk2Size p + SubChunk2Size other;
          newBlockAlign = stereo * (BitsPerSample p div 8);
          newSubChunk2Size = SubChunk2Size p + SubChunk2Size other
      in \<lparr>ChunkID = arr4 (bytes_of chunkID),
          ChunkSize = newChunkSize,
          Format = arr4 (bytes_of format),
          SubChunk1ID = arr4 (bytes_of subChunkID),
          SubChunk1Size = subChunk1Size,
          AudioFormat = audioFormat,
          NumChannels = stereo,
          SampleRate = SampleRate p,
          ByteRate = SampleRate p * ucast newBlockAlign,
          BlockAlign = newBlockAlign,
          BitsPerSample = BitsPerSample p,
          SubChunk2ID = arr4 (bytes_of subChunk2ID),
          SubChunk2Size = newSubChunk2Size\<rparr>)"

definition Merge :: "PCMAudio \<Rightarrow> PCMAudio \<Rightarrow> writer
    \<Rightarrow> error option \<times> PCMAudio \<times> PCMAudio \<times> writer" where
  "Merge p other output =
     (if \<not> valid p \<or> \<not> valid other then
        (Some (New ''validate each audio file first''), p, other, output)
      else if SampleRate p \<noteq> SampleRate other then
        (Some (New ''rate of both audio files must match''), p, other, output)
      else if BitsPerSample p \<noteq> BitsPerSample other then
        (Some (New ''bits per sample of both audio files must match''), p, other, output)
      else
        let newHeaders = Merge_newHeaders p other in
        case binary_Write output newHeaders of
          (Some err, output1) \<Rightarrow>
            (Some (Errorf ''could not write headers: '' err), p, other, output1)
        | (None, output1) \<Rightarrow>
        case Seek (data p) 44 of
          (Some err, left) \<Rightarrow>
            (Some (Errorf ''could not seek left: '' err), p\<lparr>data := left\<rparr>, other, output1)
        | (None, left) \<Rightarrow>
        case Seek (data other) 44 of
          (Some err, right) \<Rightarrow>
            (Some (Errorf ''could not seek right: '' err),
             p\<lparr>data := left\<rparr>, other\<lparr>data := right\<rparr>, output1)
        | (None, right) \<Rightarrow>
        let sampleSize = unat (BitsPerSample p div 8);
            bufLeft = replicate sampleSize 0;
            bufRight = replicate sampleSize 0
        in
        case Merge_loop sampleSize (bufLeft, bufRight, left, right, output1) of
          (err, left', right', output') \<Rightarrow>
            (err, p\<lparr>data := left'\<rparr>, other\<lparr>data := right'\<rparr>, output'))"

section \<open>Concat\<close>

text \<open>\<^verbatim>\<open>io.Copy(dst, src)\<close>: everything from the cursor to the end of the source.\<close>

definition Copy :: "writer \<Rightarrow> reader \<Rightarrow> error option \<times> reader \<times> writer" where
  "Copy dst src =
     (if faulty src then (Some ErrIO, src, dst)
      else
        let chunk = drop (off src) (bytes src);
            src' = src\<lparr>off := off src + length chunk\<rparr>
        in case Write dst chunk of
             (Some err, dst') \<Rightarrow> (Some err, src', dst')
           | (None, dst') \<Rightarrow> (if faulty src' then Some ErrIO else None, src', dst'))"

text \<open>
  Modelled from the spec: the output header of Concat, which is built inside the method
  Concat that is not among the source files. Spec 4.3: channelCount = left.channelCount;
  dataChunkSize = left.dataChunkSize + right.dataChunkSize; blockAlign = left.blockAlign;
  byteRate = left.byteRate; totalSize = 36 + dataChunkSize. The fields the spec does not
  list (the tags, fmtChunkSize, codecId, sampleRate, bitsPerSample) are filled as Merge
  fills them.
\<close>

definition Concat_newHeaders :: "PCMAudio \<Rightarrow> PCMAudio \<Rightarrow> headers" where
  "Concat_newHeaders p other =
     (let newSubChunk2Size = SubChunk2Size p + SubChunk2Size other
      in \<lparr>ChunkID = arr4 (bytes_of chunkID),
          ChunkSize = 36 + newSubChunk2Size,
          Format = arr4 (bytes_of format),
          SubChunk1ID = arr4 (bytes_of subChunkID),
          SubChunk1Size = subChunk1Size,
          AudioFormat = audioFormat,
          NumChannels = NumChannels p,
          SampleRate = SampleRate p,
          ByteRate = ByteRate p,
          BlockAlign = BlockAlign p,
          BitsPerSample = BitsPerSample p,
          SubChunk2ID = arr4 (bytes_of subChunk2ID),
          SubChunk2Size = newSubChunk2Size\<rparr>)"

text \<open>
  Modelled from the spec: the method Concat, which is not among the source files (only its
  precondition check checkRequiredParams, the helper chooseMode and its use in the README
  are). Spec 4.3: both handles valid and equal in sampleRate, bitsPerSample and
  channelCount (checkRequiredParams, from the source); write the output header first,
  seek both inputs to the first payload byte, then copy left's entire payload verbatim,
  then right's; an I/O error is propagated immediately and ends the operation.
\<close>

definition Concat :: "PCMAudio \<Rightarrow> PCMAudio \<Rightarrow> writer
    \<Rightarrow> error option \<times> PCMAudio \<times> PCMAudio \<times> writer" where
  "Concat p other output =
     (case checkRequiredParams p other of
        Some err \<Rightarrow> (Some err, p, other, output)
      | None \<Rightarrow>
        case binary_Write output (Concat_newHeaders p other) of
          (Some err, output1) \<Rightarrow> (Some err, p, other, output1)
        | (None, output1) \<Rightarrow>
        case Seek (data p) 44 of
          (Some err, left) \<Rightarrow> (Some err, p\<lparr>data := left\<rparr>, other, output1)
        | (None, left) \<Rightarrow>
        case Seek (data other) 44 of
          (Some err, right) \<Rightarrow>
            (Some err, p\<lparr>data := left\<rparr>, other\<lparr>data := right\<rparr>, output1)
        | (None, right) \<Rightarrow>
        case Copy output1 left of
          (Some err, left', output2) \<Rightarrow>
            (Some err, p\<lparr>data := left'\<rparr>, other\<lparr>data := right\<rparr>, output2)
        | (None, left', output2) \<Rightarrow>
        case Copy output2 right of
          (err, right', output3) \<Rightarrow>
            (err, p\<lparr>data := left'\<rparr>, other\<lparr>data := right'\<rparr>, output3))"

section \<open>Notions of the specification\<close>

text \<open>The payload of a source is everything after its 44 header bytes.\<close>

definition payload :: "reader \<Rightarrow> byte list" where
  "payload r = drop 44 (bytes r)"

text \<open>The \<open>i\<close>-th frame of a byte sequence cut into frames of \<open>sz\<close> bytes.\<close>

definition frame :: "nat \<Rightarrow> nat \<Rightarrow> byte list \<Rightarrow> byte list" where
  "frame sz i xs = take sz (drop (i * sz) xs)"

text \<open>A source and a sink without injected faults.\<close>

definition healthy :: "reader \<Rightarrow> bool" where
  "healthy r = (seekable r \<and> fault r = None)"

definition unlimited :: "writer \<Rightarrow> bool" where
  "unlimited w = (room w = None)"

text \<open>
  The validation of the spec (4.2), in its words: five checks in this order, the first
  failure wins, one error kind per check.
\<close>

definition Validate_checks :: "((PCMAudio \<Rightarrow> bool) \<times> error) list" where
  "Validate_checks =
     [(\<lambda>h. slice4 (ChunkID h) = bytes_of ''RIFF'', New ''RIFF header doesn't match''),
      (\<lambda>h. slice4 (Format h) = bytes_of ''WAVE'', New ''audio format doesn't match''),
      (\<lambda>h. slice4 (SubChunk1ID h) = bytes_of ''fmt '', New ''subchunk fmt doesn't match''),
      (\<lambda>h. SubChunk1Size h = 16 \<and> AudioFormat h = 1, New ''provided data is not PCM audio''),
      (\<lambda>h. slice4 (SubChunk2ID h) = bytes_of ''data'', New ''data header doesn't match'')]"

fun first_failure :: "(('a \<Rightarrow> bool) \<times> error) list \<Rightarrow> 'a \<Rightarrow> error option" where
  "first_failure [] h = None"
| "first_failure ((ok, err) # checks) h = (if ok h then first_failure checks h else Some err)"


text \<open>
  The first \<open>n\<close> frames of two byte sequences, interleaved: left frame, right frame,
  left frame, and so on.
\<close>

fun weave :: "nat \<Rightarrow> nat \<Rightarrow> byte list \<Rightarrow> byte list \<Rightarrow> byte list" where
  "weave sz 0 L R = []"
| "weave sz (Suc n) L R = take sz L @ take sz R @ weave sz n (drop sz L) (drop sz R)"

section \<open>Example streams\<close>

text \<open>
  The header of a PCM file at 8 kHz and 16 bits with the given channel count and payload
  size, the handle that NewPCMAudio and a successful Validate leave for a file made of a
  header and samples, and the empty sink without limit.
\<close>

definition wav_header :: "uint16 \<Rightarrow> uint32 \<Rightarrow> headers" where
  "wav_header channels n =
     \<lparr>ChunkID = arr4 (bytes_of chunkID), ChunkSize = 36 + n,
      Format = arr4 (bytes_of format), SubChunk1ID = arr4 (bytes_of subChunkID),
      SubChunk1Size = subChunk1Size, AudioFormat = audioFormat, NumChannels = channels,
      SampleRate = 8000, ByteRate = 8000 * ucast (channels * 2), BlockAlign = channels * 2,
      BitsPerSample = 16, SubChunk2ID = arr4 (bytes_of subChunk2ID), SubChunk2Size = n\<rparr>"

definition opened :: "headers \<Rightarrow> byte list \<Rightarrow> PCMAudio" where
  "opened h samples =
     headers.extend h
       (PCMAudio.fields
          \<lparr>bytes = encode h @ samples, off = 44, seekable = True, fault = None\<rparr> True)"

definition buffer :: writer where
  "buffer = \<lparr>out = [], room = None\<rparr>"

section \<open>The header codec\<close>

lemma Uint32_le32: "Uint32 (le32 v @ rest) = v"
proof -
  have "ucast (ucast v :: byte) OR push_bit 8 (ucast (ucast (drop_bit 8 v) :: byte))
        OR push_bit 16 (ucast (ucast (drop_bit 16 v) :: byte))
        OR push_bit 24 (ucast (ucast (drop_bit 24 v) :: byte)) = v"
  proof (rule bit_word_eqI)
    fix n assume "n < LENGTH(32)"
    then consider "n < 8" | "8 \<le> n" "n < 16" | "16 \<le> n" "n < 24" | "24 \<le> n" "n < 32"
      by fastforce
    then show "bit (ucast (ucast v :: byte) OR push_bit 8 (ucast (ucast (drop_bit 8 v) :: byte))
        OR push_bit 16 (ucast (ucast (drop_bit 16 v) :: byte))
        OR push_bit 24 (ucast (ucast (drop_bit 24 v) :: byte)) :: uint32) n = bit v n"
      by cases (auto simp: bit_simps)
  qed
  then show ?thesis by (simp add: le32_def)
qed

lemma Uint16_le16: "Uint16 (le16 v @ rest) = v"
proof -
  have "ucast (ucast v :: byte) OR push_bit 8 (ucast (ucast (drop_bit 8 v) :: byte)) = v"
    by (rule bit_word_eqI) (auto simp: bit_simps not_less)
  then show ?thesis by (simp add: le16_def)
qed

lemma arr4_slice4: "arr4 (slice4 t @ rest) = t"
  by (cases t) simp

lemma length_slice4: "length (slice4 t) = 4"
  by (cases t) simp

lemma length_le32: "length (le32 v) = 4"
  by (simp add: le32_def)

lemma length_le16: "length (le16 v) = 2"
  by (simp add: le16_def)

lemma length_encode: "length (encode h) = 44"
  by (simp add: encode_def length_slice4 length_le32 length_le16)

lemma decode_encode_append: "decode (encode h @ rest) = h"
  by (simp add: decode_def encode_def length_slice4 length_le32 length_le16
      arr4_slice4 Uint32_le32 Uint16_le16)

lemma decode_encode: "decode (encode h) = h"
  using decode_encode_append [of h "[]"] by simp

section \<open>Sources and sinks\<close>

lemma Write_unlimited: "room w = None \<Longrightarrow> Write w p = (None, w\<lparr>out := out w @ p\<rparr>)"
  by (simp add: Write_def)

lemma Write_appends: "Write w p = (e, w') \<Longrightarrow> \<exists>ys. out w' = out w @ ys"
  by (auto simp: Write_def split: option.splits if_splits)

lemma Write_ok: "Write w p = (None, w') \<Longrightarrow> out w' = out w @ p"
  by (auto simp: Write_def split: option.splits if_splits)

lemma ReadFull_enough:
  assumes "\<not> faulty r" and "off r + n \<le> length (bytes r)"
  shows "ReadFull r n = (Inr (take n (drop (off r) (bytes r))), r\<lparr>off := off r + n\<rparr>)"
  using assms by (cases "n = 0") (auto simp: ReadFull_def Read_def Let_def min_def)

lemma ReadFull_short:
  assumes "length (bytes r) < off r + n" and "0 < n"
  shows "\<exists>e r'. ReadFull r n = (Inl e, r')"
  using assms
  by (auto simp: ReadFull_def Read_def Let_def min_def split: prod.splits option.splits)

lemma opened_simps:
  "valid (opened h s)"
  "data (opened h s) = \<lparr>bytes = encode h @ s, off = 44, seekable = True, fault = None\<rparr>"
  "ChunkID (opened h s) = ChunkID h" "Format (opened h s) = Format h"
  "SubChunk1ID (opened h s) = SubChunk1ID h" "SubChunk2ID (opened h s) = SubChunk2ID h"
  "SubChunk1Size (opened h s) = SubChunk1Size h"
  "SampleRate (opened h s) = SampleRate h" "BitsPerSample (opened h s) = BitsPerSample h"
  "NumChannels (opened h s) = NumChannels h" "AudioFormat (opened h s) = AudioFormat h"
  "SubChunk2Size (opened h s) = SubChunk2Size h"
  "ByteRate (opened h s) = ByteRate h" "BlockAlign (opened h s) = BlockAlign h"
  by (simp_all add: opened_def headers.defs PCMAudio.defs)

lemma payload_source: "payload \<lparr>bytes = encode h @ s, off = k, seekable = b, fault = f\<rparr> = s"
  by (simp add: payload_def length_encode)

section \<open>The loop of Merge\<close>

lemma Merge_pass_Return_appends:
  assumes "Merge_pass sz (bl, br, l, r, w) = Return (e, l', r', w')"
  shows "\<exists>ys. out w' = out w @ ys"
proof -
  obtain b1 nL errL l1 where L: "Read l bl = (b1, nL, errL, l1)"
    by (cases "Read l bl") auto
  obtain b2 nR errR r1 where R: "Read r br = (b2, nR, errR, r1)"
    by (cases "Read r br") auto
  obtain e1 w1 where W1: "Write w (if nL = sz then b1 else replicate sz 0) = (e1, w1)"
    by (cases "Write w (if nL = sz then b1 else replicate sz 0)") auto
  obtain e2 w2 where W2: "Write w1 (if nR = sz then b2 else replicate sz 0) = (e2, w2)"
    by (cases "Write w1 (if nR = sz then b2 else replicate sz 0)") auto
  from Write_appends [OF W1] obtain ys1 where 1: "out w1 = out w @ ys1" by blast
  from Write_appends [OF W2] obtain ys2 where 2: "out w2 = out w1 @ ys2" by blast
  from assms L R W1 W2 have "w' = w \<or> w' = w1 \<or> w' = w2"
    unfolding Merge_pass_def by (auto split: if_splits option.splits)
  with 1 2 show ?thesis by auto
qed

lemma Merge_pass_Continue_appends:
  assumes "Merge_pass sz (bl, br, l, r, w) = Continue (bl', br', l', r', w')"
  shows "\<exists>ys. out w' = out w @ ys"
proof -
  obtain b1 nL errL l1 where L: "Read l bl = (b1, nL, errL, l1)"
    by (cases "Read l bl") auto
  obtain b2 nR errR r1 where R: "Read r br = (b2, nR, errR, r1)"
    by (cases "Read r br") auto
  obtain e1 w1 where W1: "Write w (if nL = sz then b1 else replicate sz 0) = (e1, w1)"
    by (cases "Write w (if nL = sz then b1 else replicate sz 0)") auto
  obtain e2 w2 where W2: "Write w1 (if nR = sz then b2 else replicate sz 0) = (e2, w2)"
    by (cases "Write w1 (if nR = sz then b2 else replicate sz 0)") auto
  from Write_appends [OF W1] obtain ys1 where 1: "out w1 = out w @ ys1" by blast
  from Write_appends [OF W2] obtain ys2 where 2: "out w2 = out w1 @ ys2" by blast
  from assms L R W1 W2 have "w' = w2"
    unfolding Merge_pass_def by (auto split: if_splits option.splits)
  with 1 2 show ?thesis by auto
qed

lemma Merge_loop_appends:
  "Merge_loop sz (bl, br, l, r, w) = (e, l', r', w') \<Longrightarrow> \<exists>ys. out w' = out w @ ys"
proof (induction sz "(bl, br, l, r, w)" arbitrary: bl br l r w rule: Merge_loop.induct)
  case (1 sz)
  show ?case
  proof (cases "Merge_pass sz (bl, br, l, r, w)")
    case (Return res)
    with "1.prems" have "Merge_pass sz (bl, br, l, r, w) = Return (e, l', r', w')"
      by (simp add: Merge_loop.simps [of sz "(bl, br, l, r, w)"])
    then show ?thesis by (rule Merge_pass_Return_appends)
  next
    case (Continue vars')
    obtain bl1 br1 l1 r1 w1 where v: "vars' = (bl1, br1, l1, r1, w1)"
      by (cases vars') auto
    from Continue v have "\<exists>ys. out w1 = out w @ ys"
      by (auto intro: Merge_pass_Continue_appends)
    moreover from "1.prems" Continue v have "Merge_loop sz (bl1, br1, l1, r1, w1) = (e, l', r', w')"
      by (simp add: Merge_loop.simps [of sz "(bl, br, l, r, w)"])
    with "1.hyps" Continue v have "\<exists>ys. out w' = out w1 @ ys" by blast
    ultimately show ?thesis by auto
  qed
qed

lemma Merge_pass_healthy:
  assumes "fault l = None" "fault r = None" "room w = None"
  shows "(\<exists>l' r' w'. Merge_pass sz (bl, br, l, r, w) = Return (None, l', r', w'))
    \<or> (\<exists>bl' br' l' r' w'. Merge_pass sz (bl, br, l, r, w) = Continue (bl', br', l', r', w')
          \<and> fault l' = None \<and> fault r' = None \<and> room w' = None)"
  using assms
  by (auto simp: Merge_pass_def Read_def Write_def faulty_def Let_def)

lemma Merge_loop_healthy:
  "fault l = None \<Longrightarrow> fault r = None \<Longrightarrow> room w = None \<Longrightarrow>
   fst (Merge_loop sz (bl, br, l, r, w)) = None"
proof (induction sz "(bl, br, l, r, w)" arbitrary: bl br l r w rule: Merge_loop.induct)
  case (1 sz)
  from Merge_pass_healthy [OF "1.prems", of sz bl br]
  show ?case
  proof (elim disjE exE conjE)
    fix l' r' w'
    assume "Merge_pass sz (bl, br, l, r, w) = Return (None, l', r', w')"
    then show ?thesis
      by (simp add: Merge_loop.simps [of sz "(bl, br, l, r, w)"])
  next
    fix bl' br' l' r' w'
    assume pass: "Merge_pass sz (bl, br, l, r, w) = Continue (bl', br', l', r', w')"
      and ok: "fault l' = None" "fault r' = None" "room w' = None"
    from "1.hyps" [OF pass ok] pass show ?thesis
      by (simp add: Merge_loop.simps [of sz "(bl, br, l, r, w)"])
  qed
qed






lemma frame_append_left:
  "(i + 1) * sz \<le> length A \<Longrightarrow> frame sz i (A @ B) = frame sz i A"
  by (simp add: frame_def)

lemma frame_append_right:
  "length A = n * sz \<Longrightarrow> frame sz (n + j) (A @ B) = frame sz j B"
  by (simp add: frame_def add_mult_distrib)

lemma Merge_pass_full:
  assumes "0 < sz" "fault l = None" "fault r = None" "room w = None"
    "length bl = sz" "length br = sz"
    "off l + sz \<le> length (bytes l)" "off r + sz \<le> length (bytes r)"
  shows "Merge_pass sz (bl, br, l, r, w) =
    Continue (take sz (drop (off l) (bytes l)), take sz (drop (off r) (bytes r)),
              l\<lparr>off := off l + sz\<rparr>, r\<lparr>off := off r + sz\<rparr>,
              w\<lparr>out := out w @ take sz (drop (off l) (bytes l)) @ take sz (drop (off r) (bytes r))\<rparr>)"
proof -
  from assms have L: "Read l bl = (take sz (drop (off l) (bytes l)), sz, None, l\<lparr>off := off l + sz\<rparr>)"
    by (auto simp: Read_def faulty_def Let_def min_def)
  from assms have R: "Read r br = (take sz (drop (off r) (bytes r)), sz, None, r\<lparr>off := off r + sz\<rparr>)"
    by (auto simp: Read_def faulty_def Let_def min_def)
  show ?thesis
    using assms(1,4) by (simp add: Merge_pass_def L R Write_def)
qed


lemma Merge_pass_left_eof:
  assumes "0 < sz" "fault l = None" "fault r = None" "room w = None" "length br = sz"
    "length (bytes l) \<le> off l" "off r + sz \<le> length (bytes r)"
  shows "Merge_pass sz (bl, br, l, r, w) =
    Return (None, l, r\<lparr>off := off r + sz\<rparr>,
            w\<lparr>out := out w @ replicate sz 0 @ take sz (drop (off r) (bytes r))\<rparr>)"
proof -
  from assms have L: "Read l bl = (bl, 0, Some EOF, l)"
    by (auto simp: Read_def faulty_def)
  from assms have R: "Read r br = (take sz (drop (off r) (bytes r)), sz, None, r\<lparr>off := off r + sz\<rparr>)"
    by (auto simp: Read_def faulty_def Let_def min_def)
  show ?thesis
    using assms(1,4) by (simp add: Merge_pass_def L R Write_def)
qed

lemma Merge_loop_frames:
  assumes "0 < sz" "fault l = None" "fault r = None" "room w = None"
    "length bl = sz" "length br = sz"
    "off l + n * sz \<le> length (bytes l)" "off r + n * sz \<le> length (bytes r)"
  shows "\<exists>bl' br'. length bl' = sz \<and> length br' = sz \<and>
    Merge_loop sz (bl, br, l, r, w) =
    Merge_loop sz (bl', br', l\<lparr>off := off l + n * sz\<rparr>, r\<lparr>off := off r + n * sz\<rparr>,
      w\<lparr>out := out w @ weave sz n (drop (off l) (bytes l)) (drop (off r) (bytes r))\<rparr>)"
  using assms
proof (induction n arbitrary: bl br l r w)
  case 0
  then show ?case by auto
next
  case (Suc n)
  let ?fl = "take sz (drop (off l) (bytes l))" and ?fr = "take sz (drop (off r) (bytes r))"
  let ?l1 = "l\<lparr>off := off l + sz\<rparr>" and ?r1 = "r\<lparr>off := off r + sz\<rparr>"
  let ?w1 = "w\<lparr>out := out w @ ?fl @ ?fr\<rparr>"
  from Suc.prems have szL: "off l + sz \<le> length (bytes l)" and szR: "off r + sz \<le> length (bytes r)"
    by auto
  have pass: "Merge_pass sz (bl, br, l, r, w) = Continue (?fl, ?fr, ?l1, ?r1, ?w1)"
    using Suc.prems(1-6) szL szR by (rule Merge_pass_full)
  have step: "Merge_loop sz (bl, br, l, r, w) = Merge_loop sz (?fl, ?fr, ?l1, ?r1, ?w1)"
    by (subst Merge_loop.simps) (simp add: pass)
  have "\<exists>bl' br'. length bl' = sz \<and> length br' = sz \<and>
    Merge_loop sz (?fl, ?fr, ?l1, ?r1, ?w1) =
    Merge_loop sz (bl', br', ?l1\<lparr>off := off ?l1 + n * sz\<rparr>, ?r1\<lparr>off := off ?r1 + n * sz\<rparr>,
      ?w1\<lparr>out := out ?w1 @ weave sz n (drop (off ?l1) (bytes ?l1)) (drop (off ?r1) (bytes ?r1))\<rparr>)"
  proof (rule Suc.IH)
    show "0 < sz" by fact
    show "fault ?l1 = None" using Suc.prems by simp
    show "fault ?r1 = None" using Suc.prems by simp
    show "room ?w1 = None" using Suc.prems by simp
    show "length ?fl = sz" using szL by simp
    show "length ?fr = sz" using szR by simp
    show "off ?l1 + n * sz \<le> length (bytes ?l1)" using Suc.prems by simp
    show "off ?r1 + n * sz \<le> length (bytes ?r1)" using Suc.prems by simp
  qed
  then show ?case
    unfolding step by (simp add: add.assoc add.commute [of sz] drop_drop)
qed


text \<open>When the left source is the shorter one, the pass in which it reports the end of
  its content is the last one: it writes one frame of zeros and one more right frame.\<close>

lemma Merge_loop_left_short:
  assumes "0 < sz" "fault l = None" "fault r = None" "room w = None"
    "length (drop (off l) (bytes l)) = n * sz" "(n + 1) * sz \<le> length (drop (off r) (bytes r))"
  shows "\<exists>l' r'. Merge_loop sz (replicate sz 0, replicate sz 0, l, r, w) =
    (None, l', r', w\<lparr>out := out w @ weave sz n (drop (off l) (bytes l)) (drop (off r) (bytes r))
                              @ replicate sz 0 @ frame sz n (drop (off r) (bytes r))\<rparr>)"
proof -
  from assms(1,6) have lenR: "off r + (n + 1) * sz \<le> length (bytes r)"
    unfolding length_drop by (cases "off r \<le> length (bytes r)") auto
  then have lenR': "off r + n * sz \<le> length (bytes r)" by simp
  let ?w' = "w\<lparr>out := out w @ weave sz n (drop (off l) (bytes l)) (drop (off r) (bytes r))\<rparr>"
  let ?l' = "l\<lparr>off := off l + n * sz\<rparr>" and ?r' = "r\<lparr>off := off r + n * sz\<rparr>"
  have eofL: "length (bytes ?l') \<le> off ?l'"
    using assms(5) by simp
  have "\<exists>bl' br'. length bl' = sz \<and> length br' = sz \<and>
    Merge_loop sz (replicate sz 0, replicate sz 0, l, r, w) = Merge_loop sz (bl', br', ?l', ?r', ?w')"
  proof (cases "n = 0")
    case True
    then show ?thesis by (intro exI [where x = "replicate sz 0"]) simp
  next
    case False
    with assms(1,5) have "off l + n * sz = length (bytes l)"
      unfolding length_drop by (cases "off l \<le> length (bytes l)") auto
    then show ?thesis
      using Merge_loop_frames [of sz l r w "replicate sz 0" "replicate sz 0" n] assms(1-4) lenR'
      by simp
  qed
  then obtain bl' br' where len: "length br' = sz"
    and run: "Merge_loop sz (replicate sz 0, replicate sz 0, l, r, w) = Merge_loop sz (bl', br', ?l', ?r', ?w')"
    by blast
  have "Merge_pass sz (bl', br', ?l', ?r', ?w') =
      Return (None, ?l', ?r'\<lparr>off := off ?r' + sz\<rparr>,
              ?w'\<lparr>out := out ?w' @ replicate sz 0 @ take sz (drop (off ?r') (bytes ?r'))\<rparr>)"
    by (rule Merge_pass_left_eof) (use assms(1-4) len eofL lenR in simp_all)
  then have "Merge_loop sz (bl', br', ?l', ?r', ?w') =
      (None, ?l', ?r'\<lparr>off := off ?r' + sz\<rparr>,
       ?w'\<lparr>out := out ?w' @ replicate sz 0 @ take sz (drop (off ?r') (bytes ?r'))\<rparr>)"
    by (subst Merge_loop.simps) simp
  with run show ?thesis
    by (simp add: frame_def add.commute mult.commute)
qed

section \<open>Runs of Merge\<close>

lemma Merge_newHeaders_fields:
  "NumChannels (Merge_newHeaders p other) = 2"
  "SubChunk2Size (Merge_newHeaders p other) = SubChunk2Size p + SubChunk2Size other"
  "BlockAlign (Merge_newHeaders p other) = 2 * (BitsPerSample p div 8)"
  "SampleRate (Merge_newHeaders p other) = SampleRate p"
  "BitsPerSample (Merge_newHeaders p other) = BitsPerSample p"
  "ByteRate (Merge_newHeaders p other) = SampleRate p * ucast (2 * (BitsPerSample p div 8))"
  "ChunkSize (Merge_newHeaders p other) = 36 + (SubChunk2Size p + SubChunk2Size other)"
  "SubChunk1Size (Merge_newHeaders p other) = 16"
  "AudioFormat (Merge_newHeaders p other) = 1"
  "slice4 (ChunkID (Merge_newHeaders p other)) = bytes_of ''RIFF''"
  "slice4 (Format (Merge_newHeaders p other)) = bytes_of ''WAVE''"
  "slice4 (SubChunk1ID (Merge_newHeaders p other)) = bytes_of ''fmt ''"
  "slice4 (SubChunk2ID (Merge_newHeaders p other)) = bytes_of ''data''"
  by (simp_all add: Merge_newHeaders_def stereo_def chunkID_def format_def subChunkID_def
      subChunk2ID_def subChunk1Size_def audioFormat_def bytes_of_def add.assoc Let_def)

lemma Merge_run:
  assumes "valid p" "valid other" "SampleRate p = SampleRate other"
    "BitsPerSample p = BitsPerSample other"
    "seekable (data p)" "seekable (data other)" "room output = None"
  shows "Merge p other output =
    (case Merge_loop (unat (BitsPerSample p div 8))
            (replicate (unat (BitsPerSample p div 8)) 0, replicate (unat (BitsPerSample p div 8)) 0,
             (data p)\<lparr>off := 44\<rparr>, (data other)\<lparr>off := 44\<rparr>,
             output\<lparr>out := out output @ encode (Merge_newHeaders p other)\<rparr>) of
       (err, l', r', w') \<Rightarrow> (err, p\<lparr>data := l'\<rparr>, other\<lparr>data := r'\<rparr>, w'))"
  using assms by (simp add: Merge_def binary_Write_def Write_unlimited Seek_def Let_def)

lemma Merge_success_output:
  assumes "Merge p other output = (None, p', other', output')"
  shows "\<exists>samples. out output' = out output @ encode (Merge_newHeaders p other) @ samples"
proof -
  from assms obtain output1 left right left' right' where
    W: "binary_Write output (Merge_newHeaders p other) = (None, output1)"
    and loop: "Merge_loop (unat (BitsPerSample p div 8))
       (replicate (unat (BitsPerSample p div 8)) 0, replicate (unat (BitsPerSample p div 8)) 0,
        left, right, output1) = (None, left', right', output')"
    unfolding Merge_def Let_def
    by (auto split: if_splits prod.splits option.splits)
  from W have "out output1 = out output @ encode (Merge_newHeaders p other)"
    by (simp add: binary_Write_def Write_ok)
  moreover from Merge_loop_appends [OF loop] obtain samples where "out output' = out output1 @ samples"
    by blast
  ultimately show ?thesis by simp
qed

lemma Merge_healthy_succeeds:
  assumes "valid p" "valid other" "SampleRate p = SampleRate other"
    "BitsPerSample p = BitsPerSample other"
    "healthy (data p)" "healthy (data other)" "unlimited output"
  shows "fst (Merge p other output) = None"
proof -
  let ?sz = "unat (BitsPerSample p div 8)"
  let ?vars = "(replicate ?sz 0, replicate ?sz 0, (data p)\<lparr>off := 44\<rparr>, (data other)\<lparr>off := 44\<rparr>,
             output\<lparr>out := out output @ encode (Merge_newHeaders p other)\<rparr>)"
  have "fst (Merge_loop ?sz ?vars) = None"
    by (rule Merge_loop_healthy) (use assms(5-7) in \<open>simp_all add: healthy_def unlimited_def\<close>)
  moreover have "Merge p other output =
    (case Merge_loop ?sz ?vars of (err, l', r', w') \<Rightarrow> (err, p\<lparr>data := l'\<rparr>, other\<lparr>data := r'\<rparr>, w'))"
    by (rule Merge_run) (use assms in \<open>simp_all add: healthy_def unlimited_def\<close>)
  ultimately show ?thesis by (simp split: prod.splits)
qed


lemma Merge_left_short_run:
  assumes "valid p" "valid other" "SampleRate p = SampleRate other"
    "BitsPerSample p = BitsPerSample other"
    "healthy (data p)" "healthy (data other)" "unlimited output"
    "0 < unat (BitsPerSample p div 8)"
    "length (payload (data p)) = N * unat (BitsPerSample p div 8)"
    "(N + 1) * unat (BitsPerSample p div 8) \<le> length (payload (data other))"
  shows "\<exists>l' r'. Merge p other output =
    (None, p\<lparr>data := l'\<rparr>, other\<lparr>data := r'\<rparr>,
     output\<lparr>out := out output @ encode (Merge_newHeaders p other)
              @ weave (unat (BitsPerSample p div 8)) N (payload (data p)) (payload (data other))
              @ replicate (unat (BitsPerSample p div 8)) 0
              @ frame (unat (BitsPerSample p div 8)) N (payload (data other))\<rparr>)"
proof -
  let ?sz = "unat (BitsPerSample p div 8)"
  let ?l = "(data p)\<lparr>off := 44\<rparr>" and ?r = "(data other)\<lparr>off := 44\<rparr>"
  let ?w = "output\<lparr>out := out output @ encode (Merge_newHeaders p other)\<rparr>"
  have "\<exists>l' r'. Merge_loop ?sz (replicate ?sz 0, replicate ?sz 0, ?l, ?r, ?w) =
    (None, l', r', ?w\<lparr>out := out ?w @ weave ?sz N (drop (off ?l) (bytes ?l)) (drop (off ?r) (bytes ?r))
                              @ replicate ?sz 0 @ frame ?sz N (drop (off ?r) (bytes ?r))\<rparr>)"
    by (rule Merge_loop_left_short)
       (use assms(5-10) in \<open>simp_all add: healthy_def unlimited_def payload_def\<close>)
  then obtain l' r' where loop: "Merge_loop ?sz (replicate ?sz 0, replicate ?sz 0, ?l, ?r, ?w) =
    (None, l', r', output\<lparr>out := out output @ encode (Merge_newHeaders p other)
              @ weave ?sz N (payload (data p)) (payload (data other))
              @ replicate ?sz 0 @ frame ?sz N (payload (data other))\<rparr>)"
    by (auto simp: payload_def)
  have run: "Merge p other output =
    (case Merge_loop ?sz (replicate ?sz 0, replicate ?sz 0, ?l, ?r, ?w) of
       (err, l', r', w') \<Rightarrow> (err, p\<lparr>data := l'\<rparr>, other\<lparr>data := r'\<rparr>, w'))"
    by (rule Merge_run) (use assms in \<open>simp_all add: healthy_def unlimited_def\<close>)
  show ?thesis
    unfolding run loop by (intro exI [where x = l'] exI [where x = r']) simp
qed

section \<open>Properties of the specification\<close>

text \<open>
  C1 (the code departs from it). Claimed: when the left payload has N frames and the
  right one M > N frames, Merge pads the left side's missing M - N frames with zero
  frames, writes exactly 2M frames, and its read loop ends only when both sides are
  exhausted. The loop's last statement leaves it as soon as either side has reported
  the end of its content, so only one zero frame is ever written. Evaluated here on a
  left payload of one 16-bit frame and a right payload of three: after the header the
  sink holds four frames (left 1, right 1, one zero frame, right 2), not six; the third
  right frame is never written.
\<close>

theorem Merge_unequal_length_stops_early:
  "case Merge (opened (wav_header 1 2) [1, 2]) (opened (wav_header 1 6) [3, 4, 5, 6, 7, 8]) buffer of
     (err, p', other', output') \<Rightarrow>
       err = None \<and> drop 44 (out output') = [1, 2, 3, 4, 0, 0, 5, 6]"
proof -
  let ?p = "opened (wav_header 1 2) [1, 2]" and ?q = "opened (wav_header 1 6) [3, 4, 5, 6, 7, 8]"
  have sz: "unat (BitsPerSample ?p div 8) = 2"
    by (simp add: opened_simps wav_header_def)
  have "\<exists>l' r'. Merge ?p ?q buffer =
    (None, ?p\<lparr>data := l'\<rparr>, ?q\<lparr>data := r'\<rparr>,
     buffer\<lparr>out := out buffer @ encode (Merge_newHeaders ?p ?q)
              @ weave (unat (BitsPerSample ?p div 8)) (Suc 0) (payload (data ?p)) (payload (data ?q))
              @ replicate (unat (BitsPerSample ?p div 8)) 0
              @ frame (unat (BitsPerSample ?p div 8)) (Suc 0) (payload (data ?q))\<rparr>)"
    by (rule Merge_left_short_run)
       (simp_all add: sz opened_simps payload_source wav_header_def healthy_def unlimited_def
          buffer_def)
  then obtain l' r' where "Merge ?p ?q buffer =
    (None, ?p\<lparr>data := l'\<rparr>, ?q\<lparr>data := r'\<rparr>,
     buffer\<lparr>out := encode (Merge_newHeaders ?p ?q) @ [1, 2, 3, 4, 0, 0, 5, 6]\<rparr>)"
    unfolding sz
    by (auto simp: opened_simps payload_source frame_def buffer_def numeral_2_eq_2)
  then show ?thesis by (simp add: length_encode)
qed

theorem Merge_unequal_length_stops_early_witness:
  "length (drop 44 (out (snd (snd (snd
     (Merge (opened (wav_header 1 2) [1, 2]) (opened (wav_header 1 6) [3, 4, 5, 6, 7, 8])
        buffer)))))) = 8"
proof -
  let ?m = "Merge (opened (wav_header 1 2) [1, 2]) (opened (wav_header 1 6) [3, 4, 5, 6, 7, 8])
        buffer"
  obtain err p' other' output' where M: "?m = (err, p', other', output')"
    by (cases ?m) auto
  from Merge_unequal_length_stops_early have "drop 44 (out output') = [1, 2, 3, 4, 0, 0, 5, 6]"
    by (simp add: M)
  then have "length (drop 44 (out output')) = 8"
    by (simp del: length_drop)
  then show ?thesis
    by (simp add: M del: length_drop)
qed



text \<open>
  C3. Whenever Merge returns without error, the first thing it has appended to the sink
  is the 44-byte encoding of a header H with channelCount = 2, dataChunkSize =
  left.dataChunkSize + right.dataChunkSize, blockAlign = 2 * (bitsPerSample / 8),
  byteRate = sampleRate * blockAlign, totalSize = 36 + dataChunkSize (all in the
  unsigned 16- and 32-bit arithmetic of the fields) and the tags "RIFF", "WAVE", "fmt "
  and "data"; the sample data follows it.
\<close>

theorem Merge_header:
  assumes "Merge p other output = (None, p', other', output')"
  shows "let written = drop (length (out output)) (out output');
             H = decode (take 44 written)
         in take (length (out output)) (out output') = out output
            \<and> 44 \<le> length written \<and> take 44 written = encode H
            \<and> NumChannels H = 2
            \<and> SubChunk2Size H = SubChunk2Size p + SubChunk2Size other
            \<and> BlockAlign H = 2 * (BitsPerSample p div 8)
            \<and> SampleRate H = SampleRate p
            \<and> ByteRate H = SampleRate H * ucast (BlockAlign H)
            \<and> ChunkSize H = 36 + SubChunk2Size H
            \<and> slice4 (ChunkID H) = bytes_of ''RIFF''
            \<and> slice4 (Format H) = bytes_of ''WAVE''
            \<and> slice4 (SubChunk1ID H) = bytes_of ''fmt ''
            \<and> slice4 (SubChunk2ID H) = bytes_of ''data''"
proof -
  define H where "H = Merge_newHeaders p other"
  from Merge_success_output [OF assms] obtain samples where
    2: "out output' = out output @ encode H @ samples"
    unfolding H_def by blast
  have 3: "drop (length (out output)) (out output') = encode H @ samples"
    by (simp add: 2)
  have 4: "take 44 (encode H @ samples) = encode H"
    by (simp add: length_encode)
  have 5: "decode (encode H) = H" by (rule decode_encode)
  show ?thesis
    unfolding Let_def 3 4 5
    by (simp add: 2 length_encode H_def Merge_newHeaders_fields)
qed

theorem Merge_header_witness:
  "fst (Merge (opened (wav_header 1 4) [1, 2, 3, 4]) (opened (wav_header 1 4) [5, 6, 7, 8]) buffer)
     = None
   \<and> (case Merge (opened (wav_header 1 4) [1, 2, 3, 4]) (opened (wav_header 1 4) [5, 6, 7, 8]) buffer
      of (err, p', other', output') \<Rightarrow>
        NumChannels (decode (take 44 (out output'))) = 2
        \<and> SubChunk2Size (decode (take 44 (out output'))) = 8
        \<and> BlockAlign (decode (take 44 (out output'))) = 4
        \<and> ByteRate (decode (take 44 (out output'))) = 32000
        \<and> ChunkSize (decode (take 44 (out output'))) = 44)"
proof -
  let ?p = "opened (wav_header 1 4) [1, 2, 3, 4]" and ?q = "opened (wav_header 1 4) [5, 6, 7, 8]"
  have ok: "fst (Merge ?p ?q buffer) = None"
    by (rule Merge_healthy_succeeds)
       (simp_all add: opened_simps wav_header_def healthy_def unlimited_def buffer_def)
  then obtain p' other' output' where M: "Merge ?p ?q buffer = (None, p', other', output')"
    by (cases "Merge ?p ?q buffer") auto
  have vals: "out buffer = []" "SubChunk2Size ?p = 4" "SubChunk2Size ?q = 4"
    "BitsPerSample ?p = 16" "SampleRate ?p = 8000"
    by (simp_all add: buffer_def opened_simps wav_header_def)
  from Merge_header [OF M] show ?thesis
    unfolding Let_def by (simp add: M vals)
qed

text \<open>
  C4. Validate is the spec's chain of five checks in the order containerTag, formatTag,
  fmtChunkTag, (fmtChunkSize = 16 and codecId = 1, together), dataChunkTag: it returns the
  error of the first check that fails and leaves the handle as it was, and returns
  success, setting the flag, exactly when all five pass. The five errors are pairwise
  distinct. A header with codecId = 2 never validates; when its three tags checked
  before are right it gets the "not PCM" error, whatever fmtChunkSize, the data tag and
  all the other fields are (so also when all of them are right).
\<close>

theorem Validate_first_failure:
  "length Validate_checks = 5
   \<and> distinct (map snd Validate_checks)
   \<and> Validate p = (case first_failure Validate_checks p of
                     Some err \<Rightarrow> ((False, Some err), p)
                   | None \<Rightarrow> ((True, None), p\<lparr>valid := True\<rparr>))
   \<and> (fst (fst (Validate p)) \<longleftrightarrow> list_all (\<lambda>check. fst check p) Validate_checks)
   \<and> (AudioFormat p = 2 \<longrightarrow> fst (Validate p) \<noteq> (True, None) \<and> snd (Validate p) = p)
   \<and> (AudioFormat p = 2 \<and> slice4 (ChunkID p) = bytes_of ''RIFF''
        \<and> slice4 (Format p) = bytes_of ''WAVE'' \<and> slice4 (SubChunk1ID p) = bytes_of ''fmt ''
      \<longrightarrow> Validate p = ((False, Some (New ''provided data is not PCM audio'')), p))"
proof -
  have 1: "length Validate_checks = 5" by (simp add: Validate_checks_def)
  have 2: "distinct (map snd Validate_checks)" by (simp add: Validate_checks_def)
  have 3: "Validate p = (case first_failure Validate_checks p of
                     Some err \<Rightarrow> ((False, Some err), p)
                   | None \<Rightarrow> ((True, None), p\<lparr>valid := True\<rparr>))"
    by (simp add: Validate_def Validate_checks_def chunkID_def format_def subChunkID_def
        subChunk1Size_def audioFormat_def subChunk2ID_def)
  have 4: "fst (fst (Validate p)) \<longleftrightarrow> list_all (\<lambda>check. fst check p) Validate_checks"
    by (auto simp: Validate_def Validate_checks_def chunkID_def format_def subChunkID_def
        subChunk1Size_def audioFormat_def subChunk2ID_def)
  have 5: "AudioFormat p = 2 \<longrightarrow> fst (Validate p) \<noteq> (True, None) \<and> snd (Validate p) = p"
    by (simp add: Validate_def audioFormat_def)
  have 6: "AudioFormat p = 2 \<and> slice4 (ChunkID p) = bytes_of ''RIFF''
        \<and> slice4 (Format p) = bytes_of ''WAVE'' \<and> slice4 (SubChunk1ID p) = bytes_of ''fmt ''
      \<longrightarrow> Validate p = ((False, Some (New ''provided data is not PCM audio'')), p)"
    by (simp add: Validate_def chunkID_def format_def subChunkID_def audioFormat_def)
  from 1 2 3 4 5 6 show ?thesis by blast
qed

theorem Validate_first_failure_witness:
  "AudioFormat (opened ((wav_header 1 0)\<lparr>AudioFormat := 2\<rparr>) []) = 2
   \<and> slice4 (ChunkID (opened ((wav_header 1 0)\<lparr>AudioFormat := 2\<rparr>) [])) = bytes_of ''RIFF''
   \<and> slice4 (Format (opened ((wav_header 1 0)\<lparr>AudioFormat := 2\<rparr>) [])) = bytes_of ''WAVE''
   \<and> slice4 (SubChunk1ID (opened ((wav_header 1 0)\<lparr>AudioFormat := 2\<rparr>) [])) = bytes_of ''fmt ''
   \<and> slice4 (SubChunk2ID (opened ((wav_header 1 0)\<lparr>AudioFormat := 2\<rparr>) [])) = bytes_of ''data''
   \<and> SubChunk1Size (opened ((wav_header 1 0)\<lparr>AudioFormat := 2\<rparr>) []) = 16
   \<and> Validate (opened ((wav_header 1 0)\<lparr>AudioFormat := 2\<rparr>) [])
       = ((False, Some (New ''provided data is not PCM audio'')),
          opened ((wav_header 1 0)\<lparr>AudioFormat := 2\<rparr>) [])"
proof -
  let ?p = "opened ((wav_header 1 0)\<lparr>AudioFormat := 2\<rparr>) []"
  have h: "AudioFormat ?p = 2" "slice4 (ChunkID ?p) = bytes_of ''RIFF''"
    "slice4 (Format ?p) = bytes_of ''WAVE''" "slice4 (SubChunk1ID ?p) = bytes_of ''fmt ''"
    "slice4 (SubChunk2ID ?p) = bytes_of ''data''" "SubChunk1Size ?p = 16"
    by (simp_all add: opened_simps wav_header_def chunkID_def format_def subChunkID_def
        subChunk2ID_def subChunk1Size_def bytes_of_def)
  from Validate_first_failure [of ?p] h show ?thesis by blast
qed

text \<open>
  C6. When a precondition of Merge fails (a handle is not validated, the sample rates
  differ, or the bit depths differ) Merge returns the error of the first failing check,
  the three errors are pairwise distinct, the sink is returned as it was (nothing is
  written) and both handles are returned as they were.
\<close>

theorem Merge_precondition_failure:
  assumes "\<not> valid p \<or> \<not> valid other \<or> SampleRate p \<noteq> SampleRate other
           \<or> BitsPerSample p \<noteq> BitsPerSample other"
  shows "Merge p other output =
           (Some (if \<not> valid p \<or> \<not> valid other then New ''validate each audio file first''
                  else if SampleRate p \<noteq> SampleRate other then
                    New ''rate of both audio files must match''
                  else New ''bits per sample of both audio files must match''),
            p, other, output)
         \<and> distinct [New ''validate each audio file first'',
                     New ''rate of both audio files must match'',
                     New ''bits per sample of both audio files must match'']"
  using assms by (auto simp: Merge_def)

theorem Merge_precondition_failure_witness:
  "SampleRate (opened ((wav_header 1 0)\<lparr>SampleRate := 44100\<rparr>) [])
     \<noteq> SampleRate (opened (wav_header 1 2) [1, 2])
   \<and> Merge (opened ((wav_header 1 0)\<lparr>SampleRate := 44100\<rparr>) []) (opened (wav_header 1 2) [1, 2]) buffer
      = (Some (New ''rate of both audio files must match''),
         opened ((wav_header 1 0)\<lparr>SampleRate := 44100\<rparr>) [], opened (wav_header 1 2) [1, 2], buffer)"
proof -
  let ?p = "opened ((wav_header 1 0)\<lparr>SampleRate := 44100\<rparr>) []" and ?q = "opened (wav_header 1 2) [1, 2]"
  have h: "SampleRate ?p \<noteq> SampleRate ?q" and v: "valid ?p" "valid ?q"
    by (simp_all add: opened_simps wav_header_def)
  then have "\<not> valid ?p \<or> \<not> valid ?q \<or> SampleRate ?p \<noteq> SampleRate ?q
           \<or> BitsPerSample ?p \<noteq> BitsPerSample ?q" by blast
  from Merge_precondition_failure [OF this, of buffer] h v show ?thesis by simp
qed

text \<open>
  C7. The binary.Write serialization of a headers value is exactly 44 bytes, and decoding
  them gives the value back: decode (encode h) = h. Through the I/O functions: binary.Write
  appends encode h to the sink, and NewPCMAudio on a source that starts with these bytes
  returns a handle whose headers are h.
\<close>

theorem header_roundtrip:
  "length (encode h) = 44 \<and> decode (encode h) = h
   \<and> binary_Write \<lparr>out = pre, room = None\<rparr> h = (None, \<lparr>out = pre @ encode h, room = None\<rparr>)
   \<and> NewPCMAudio \<lparr>bytes = encode h @ rest, off = 0, seekable = s, fault = None\<rparr>
       = Inr (headers.extend h (PCMAudio.fields
               \<lparr>bytes = encode h @ rest, off = 44, seekable = s, fault = None\<rparr> False))"
proof -
  have 1: "length (encode h) = 44" by (rule length_encode)
  have 2: "decode (encode h) = h" by (rule decode_encode)
  have 3: "binary_Write \<lparr>out = pre, room = None\<rparr> h = (None, \<lparr>out = pre @ encode h, room = None\<rparr>)"
    by (simp add: binary_Write_def Write_unlimited)
  have "ReadFull \<lparr>bytes = encode h @ rest, off = 0, seekable = s, fault = None\<rparr> 44
      = (Inr (encode h), \<lparr>bytes = encode h @ rest, off = 44, seekable = s, fault = None\<rparr>)"
    by (simp add: ReadFull_enough faulty_def 1)
  then have 4: "NewPCMAudio \<lparr>bytes = encode h @ rest, off = 0, seekable = s, fault = None\<rparr>
       = Inr (headers.extend h (PCMAudio.fields
               \<lparr>bytes = encode h @ rest, off = 44, seekable = s, fault = None\<rparr> False))"
    by (simp add: NewPCMAudio_def binary_Read_def 2)
  from 1 2 3 4 show ?thesis by simp
qed

theorem header_roundtrip_witness:
  "length (encode (wav_header 2 1024)) = 44
   \<and> decode (encode (wav_header 2 1024)) = wav_header 2 1024
   \<and> NewPCMAudio \<lparr>bytes = encode (wav_header 2 1024) @ [], off = 0, seekable = True, fault = None\<rparr>
       = Inr (headers.extend (wav_header 2 1024) (PCMAudio.fields
               \<lparr>bytes = encode (wav_header 2 1024) @ [], off = 44, seekable = True, fault = None\<rparr>
               False))"
  using header_roundtrip [of "wav_header 2 1024" "[]" "[]" True] by blast

text \<open>
  C8. NewPCMAudio fails, returning an error and no handle, on every source with fewer
  than 44 bytes left; on every source with at least 44 bytes left whose Read does not
  fail it succeeds, consumes exactly 44 bytes, decodes them by the fixed layout and
  leaves the handle unvalidated. It checks nothing: every headers value, whatever its
  tags, is the header of some handle it returns.
\<close>

theorem NewPCMAudio_reads_44:
  "(length (bytes d) - off d < 44 \<longrightarrow> (\<exists>err. NewPCMAudio d = Inl err))
   \<and> (\<not> faulty d \<and> 44 \<le> length (bytes d) - off d \<longrightarrow>
        NewPCMAudio d = Inr (headers.extend (decode (take 44 (drop (off d) (bytes d))))
                               (PCMAudio.fields (d\<lparr>off := off d + 44\<rparr>) False)))
   \<and> (\<exists>d' p. NewPCMAudio d' = Inr p \<and> headers.truncate p = h \<and> \<not> valid p)"
proof -
  have 1: "\<exists>err. NewPCMAudio d = Inl err" if "length (bytes d) - off d < 44"
  proof -
    from that have "length (bytes d) < off d + 44" by arith
    then obtain e r' where "ReadFull d 44 = (Inl e, r')"
      using ReadFull_short [of d 44] by auto
    then show ?thesis by (simp add: NewPCMAudio_def binary_Read_def)
  qed
  have 2: "NewPCMAudio d = Inr (headers.extend (decode (take 44 (drop (off d) (bytes d))))
                               (PCMAudio.fields (d\<lparr>off := off d + 44\<rparr>) False))"
    if "\<not> faulty d" and "44 \<le> length (bytes d) - off d" for d
  proof -
    from that have "ReadFull d 44 = (Inr (take 44 (drop (off d) (bytes d))), d\<lparr>off := off d + 44\<rparr>)"
      by (intro ReadFull_enough) auto
    then show ?thesis by (simp add: NewPCMAudio_def binary_Read_def)
  qed
  let ?d = "\<lparr>bytes = encode h, off = 0, seekable = True, fault = None\<rparr>"
  have "\<not> faulty ?d" and "44 \<le> length (bytes ?d) - off ?d"
    by (simp_all add: faulty_def length_encode)
  then have "NewPCMAudio ?d = Inr (headers.extend (decode (take 44 (drop (off ?d) (bytes ?d))))
                               (PCMAudio.fields (?d\<lparr>off := off ?d + 44\<rparr>) False))"
    by (rule 2)
  then have "NewPCMAudio ?d = Inr (headers.extend h (PCMAudio.fields (?d\<lparr>off := 44\<rparr>) False))"
    by (simp add: length_encode decode_encode)
  then have 3: "\<exists>d' p. NewPCMAudio d' = Inr p \<and> headers.truncate p = h \<and> \<not> valid p"
    by (intro exI [where x = ?d] exI [where x = "headers.extend h (PCMAudio.fields (?d\<lparr>off := 44\<rparr>) False)"])
       (simp add: headers.defs PCMAudio.defs)
  from 1 2 3 show ?thesis by blast
qed

theorem NewPCMAudio_reads_44_witness:
  "length (bytes \<lparr>bytes = replicate 43 7, off = 0, seekable = True, fault = None\<rparr>)
     - off \<lparr>bytes = replicate 43 7, off = 0, seekable = True, fault = None\<rparr> < 44
   \<and> (\<exists>err. NewPCMAudio \<lparr>bytes = replicate 43 7, off = 0, seekable = True, fault = None\<rparr> = Inl err)
   \<and> \<not> faulty \<lparr>bytes = replicate 50 7, off = 0, seekable = True, fault = None\<rparr>
   \<and> (\<exists>p. NewPCMAudio \<lparr>bytes = replicate 50 7, off = 0, seekable = True, fault = None\<rparr> = Inr p
          \<and> off (data p) = 44 \<and> \<not> valid p \<and> ChunkID p = (7, 7, 7, 7))"
proof -
  let ?short = "\<lparr>bytes = replicate 43 7, off = 0, seekable = True, fault = None\<rparr> :: reader"
  let ?long = "\<lparr>bytes = replicate 50 7, off = 0, seekable = True, fault = None\<rparr> :: reader"
  have s: "length (bytes ?short) - off ?short < 44" by simp
  have l: "\<not> faulty ?long \<and> 44 \<le> length (bytes ?long) - off ?long"
    by (simp add: faulty_def)
  have "replicate 44 (7 :: byte) = 7 # 7 # 7 # 7 # replicate 40 7"
    by (simp add: numeral_eq_Suc)
  then have tag: "arr4 (replicate 44 (7 :: byte)) = (7, 7, 7, 7)"
    by simp
  from NewPCMAudio_reads_44 [of ?short] s have 1: "\<exists>err. NewPCMAudio ?short = Inl err"
    by blast
  from NewPCMAudio_reads_44 [of ?long] l have "NewPCMAudio ?long =
      Inr (headers.extend (decode (take 44 (drop (off ?long) (bytes ?long))))
            (PCMAudio.fields (?long\<lparr>off := off ?long + 44\<rparr>) False))"
    by blast
  then have 2: "\<exists>p. NewPCMAudio ?long = Inr p
          \<and> off (data p) = 44 \<and> \<not> valid p \<and> ChunkID p = (7, 7, 7, 7)"
    by (simp add: headers.defs PCMAudio.defs decode_def tag)
  from s l 1 2 show ?thesis by blast
qed

text \<open>
  C9. Merge has no channel-count check: its result does not depend on the channelCount
  of either input, and for every pair of validated handles with equal sample rate and
  bit depth, whatever their channel counts, over sources and a sink without I/O faults,
  it returns no error and the header it writes declares channelCount = 2.
\<close>

theorem Merge_no_channel_check:
  assumes "valid p" and "valid other"
    and "SampleRate p = SampleRate other" and "BitsPerSample p = BitsPerSample other"
    and "healthy (data p)" and "healthy (data other)" and "unlimited output"
  shows "Merge (p\<lparr>NumChannels := a\<rparr>) (other\<lparr>NumChannels := b\<rparr>) output =
           (case Merge p other output of (err, p', other', output') \<Rightarrow>
              (err, p'\<lparr>NumChannels := a\<rparr>, other'\<lparr>NumChannels := b\<rparr>, output'))
         \<and> (case Merge p other output of (err, p', other', output') \<Rightarrow>
              err = None
              \<and> NumChannels (decode (take 44 (drop (length (out output)) (out output')))) = 2)"
proof -
  have H: "Merge_newHeaders (p\<lparr>NumChannels := a\<rparr>) (other\<lparr>NumChannels := b\<rparr>) = Merge_newHeaders p other"
    by (simp add: Merge_newHeaders_def)
  have 1: "Merge (p\<lparr>NumChannels := a\<rparr>) (other\<lparr>NumChannels := b\<rparr>) output =
           (case Merge p other output of (err, p', other', output') \<Rightarrow>
              (err, p'\<lparr>NumChannels := a\<rparr>, other'\<lparr>NumChannels := b\<rparr>, output'))"
    unfolding Merge_def H Let_def
    by (simp split: prod.splits option.splits)
  obtain err p' other' output' where M: "Merge p other output = (err, p', other', output')"
    by (cases "Merge p other output") auto
  from Merge_healthy_succeeds [OF assms] M have err: "err = None" by simp
  with M Merge_success_output obtain samples where
    "out output' = out output @ encode (Merge_newHeaders p other) @ samples"
    by blast
  then have "decode (take 44 (drop (length (out output)) (out output'))) = Merge_newHeaders p other"
    by (simp add: length_encode decode_encode)
  then have 2: "NumChannels (decode (take 44 (drop (length (out output)) (out output')))) = 2"
    by (simp add: Merge_newHeaders_fields)
  from 1 2 err show ?thesis by (simp add: M)
qed

theorem Merge_no_channel_check_witness:
  "NumChannels (opened (wav_header 2 4) [1, 2, 3, 4]) = 2
   \<and> valid (opened (wav_header 2 4) [1, 2, 3, 4]) \<and> valid (opened (wav_header 1 2) [5, 6])
   \<and> healthy (data (opened (wav_header 2 4) [1, 2, 3, 4]))
   \<and> healthy (data (opened (wav_header 1 2) [5, 6])) \<and> unlimited buffer
   \<and> (case Merge (opened (wav_header 2 4) [1, 2, 3, 4]) (opened (wav_header 1 2) [5, 6]) buffer of
        (err, p', other', output') \<Rightarrow>
          err = None \<and> NumChannels (decode (take 44 (out output'))) = 2)"
proof -
  let ?p = "opened (wav_header 2 4) [1, 2, 3, 4]" and ?q = "opened (wav_header 1 2) [5, 6]"
  have h1: "valid ?p" and h2: "valid ?q" and h3: "SampleRate ?p = SampleRate ?q"
    and h4: "BitsPerSample ?p = BitsPerSample ?q"
    and h5: "healthy (data ?p)" and h6: "healthy (data ?q)" and h7: "unlimited buffer"
    and c: "NumChannels ?p = 2" and b: "out buffer = []"
    by (simp_all add: opened_simps wav_header_def unlimited_def buffer_def healthy_def)
  from Merge_no_channel_check [OF h1 h2 h3 h4 h5 h6 h7]
  have "case Merge ?p ?q buffer of (err, p', other', output') \<Rightarrow>
          err = None \<and> NumChannels (decode (take 44 (out output'))) = 2"
    by (simp add: b)
  with h1 h2 h5 h6 h7 c show ?thesis by blast
qed

text \<open>
  C10. chooseMode returns mono (1) if and only if the channelCount of both inputs is
  mono, and stereo (2) for every other combination of channel counts.
\<close>

theorem chooseMode_mono_iff:
  "(chooseMode left right = mono_mode
      \<longleftrightarrow> NumChannels left = mono_mode \<and> NumChannels right = mono_mode)
   \<and> (chooseMode left right = stereo
      \<longleftrightarrow> \<not> (NumChannels left = mono_mode \<and> NumChannels right = mono_mode))
   \<and> mono_mode = 1 \<and> stereo = 2"
  by (auto simp: chooseMode_def mono_mode_def stereo_def)

theorem chooseMode_mono_iff_witness:
  "chooseMode (opened (wav_header 1 0) []) (opened (wav_header 1 0) []) = 1
   \<and> chooseMode (opened (wav_header 1 0) []) (opened (wav_header 2 0) []) = 2
   \<and> chooseMode (opened (wav_header 3 0) []) (opened (wav_header 1 0) []) = 2"
proof -
  have n: "NumChannels (opened (wav_header c 0) []) = c" for c
    by (simp add: opened_simps wav_header_def)
  have 1: "chooseMode (opened (wav_header 1 0) []) (opened (wav_header 1 0) []) = 1"
    using chooseMode_mono_iff [of "opened (wav_header 1 0) []" "opened (wav_header 1 0) []",
        unfolded mono_mode_def stereo_def]
    by (simp add: n)
  have 2: "chooseMode (opened (wav_header 1 0) []) (opened (wav_header 2 0) []) = 2"
    using chooseMode_mono_iff [of "opened (wav_header 1 0) []" "opened (wav_header 2 0) []",
        unfolded mono_mode_def stereo_def]
    by (simp add: n)
  have 3: "chooseMode (opened (wav_header 3 0) []) (opened (wav_header 1 0) []) = 2"
    using chooseMode_mono_iff [of "opened (wav_header 3 0) []" "opened (wav_header 1 0) []",
        unfolded mono_mode_def stereo_def]
    by (simp add: n)
  from 1 2 3 show ?thesis by simp
qed

lemma Copy_healthy:
  assumes "fault src = None" "room dst = None"
  shows "Copy dst src =
    (None, src\<lparr>off := off src + length (drop (off src) (bytes src))\<rparr>,
     dst\<lparr>out := out dst @ drop (off src) (bytes src)\<rparr>)"
  using assms by (simp add: Copy_def faulty_def Write_def Let_def)

lemma Concat_newHeaders_fields:
  "NumChannels (Concat_newHeaders p other) = NumChannels p"
  "SubChunk2Size (Concat_newHeaders p other) = SubChunk2Size p + SubChunk2Size other"
  "BlockAlign (Concat_newHeaders p other) = BlockAlign p"
  "ByteRate (Concat_newHeaders p other) = ByteRate p"
  "ChunkSize (Concat_newHeaders p other) = 36 + (SubChunk2Size p + SubChunk2Size other)"
  by (simp_all add: Concat_newHeaders_def Let_def)

lemma Concat_run:
  assumes "valid p" "valid other" "SampleRate p = SampleRate other"
    "BitsPerSample p = BitsPerSample other" "NumChannels p = NumChannels other"
    "healthy (data p)" "healthy (data other)" "unlimited output"
  shows "Concat p other output =
      (None, p\<lparr>data := (data p)\<lparr>off := 44 + length (payload (data p))\<rparr>\<rparr>,
       other\<lparr>data := (data other)\<lparr>off := 44 + length (payload (data other))\<rparr>\<rparr>,
       output\<lparr>out := out output @ encode (Concat_newHeaders p other)
                @ payload (data p) @ payload (data other)\<rparr>)"
proof -
  from assms(1-5) have ok: "checkRequiredParams p other = None"
    by (simp add: checkRequiredParams_def)
  show ?thesis
    using assms(6-8)
    unfolding Concat_def ok
    by (simp add: binary_Write_def Write_unlimited Seek_def Copy_healthy healthy_def
        unlimited_def payload_def)
qed

text \<open>
  C5. For two validated handles with equal sample rate, bit depth and channel count
  (checkRequiredParams returns nil), over sources and a sink without I/O faults, Concat
  returns no error and appends to the sink: first the 44-byte header with channelCount =
  left.channelCount, dataChunkSize = left.dataChunkSize + right.dataChunkSize,
  blockAlign = left.blockAlign, byteRate = left.byteRate and totalSize = 36 +
  dataChunkSize, then the left payload, then the right payload, byte for byte. So for
  every frame size, when the payloads hold N and M frames, frames [0, N) of the output
  are the left input's frames and frames [N, N + M) the right input's.
\<close>

theorem Concat_sequential:
  assumes "valid p" and "valid other"
    and "SampleRate p = SampleRate other" and "BitsPerSample p = BitsPerSample other"
    and "NumChannels p = NumChannels other"
    and "healthy (data p)" and "healthy (data other)" and "unlimited output"
  shows "checkRequiredParams p other = None
    \<and> (case Concat p other output of (err, p', other', output') \<Rightarrow>
         let written = drop (length (out output)) (out output');
             H = decode (take 44 written);
             samples = drop 44 written
         in err = None
            \<and> take (length (out output)) (out output') = out output
            \<and> take 44 written = encode H
            \<and> NumChannels H = NumChannels p
            \<and> SubChunk2Size H = SubChunk2Size p + SubChunk2Size other
            \<and> BlockAlign H = BlockAlign p
            \<and> ByteRate H = ByteRate p
            \<and> ChunkSize H = 36 + SubChunk2Size H
            \<and> samples = payload (data p) @ payload (data other)
            \<and> (\<forall>fs N M. length (payload (data p)) = N * fs
                          \<and> length (payload (data other)) = M * fs \<longrightarrow>
                  (\<forall>i<N. frame fs i samples = frame fs i (payload (data p)))
                  \<and> (\<forall>j<M. frame fs (N + j) samples = frame fs j (payload (data other)))))"
proof -
  define L where "L = payload (data p)"
  define R where "R = payload (data other)"
  from assms(1-5) have ok: "checkRequiredParams p other = None"
    by (simp add: checkRequiredParams_def)
  define H where "H = Concat_newHeaders p other"
  from Concat_run [OF assms] obtain l' r' where
    C: "Concat p other output =
      (None, p\<lparr>data := l'\<rparr>, other\<lparr>data := r'\<rparr>, output\<lparr>out := out output @ encode H @ L @ R\<rparr>)"
    unfolding L_def R_def H_def by blast
  have H: "NumChannels H = NumChannels p" "SubChunk2Size H = SubChunk2Size p + SubChunk2Size other"
      "BlockAlign H = BlockAlign p" "ByteRate H = ByteRate p" "ChunkSize H = 36 + SubChunk2Size H"
    by (simp_all add: H_def Concat_newHeaders_fields)
  have frames: "(\<forall>i<N. frame fs i (L @ R) = frame fs i L)
      \<and> (\<forall>j<M. frame fs (N + j) (L @ R) = frame fs j R)"
    if "length L = N * fs" for fs N M
  proof -
    have "frame fs i (L @ R) = frame fs i L" if "i < N" for i
    proof -
      from \<open>i < N\<close> have "Suc i \<le> N" by simp
      then have "Suc i * fs \<le> N * fs" by (rule mult_le_mono1)
      then show ?thesis
        using \<open>length L = N * fs\<close> by (intro frame_append_left) simp
    qed
    moreover have "frame fs (N + j) (L @ R) = frame fs j R" for j
      using that by (rule frame_append_right)
    ultimately show ?thesis by blast
  qed
  have frames': "\<forall>fs N M. length L = N * fs \<and> length R = M * fs \<longrightarrow>
      (\<forall>i<N. frame fs i (L @ R) = frame fs i L) \<and> (\<forall>j<M. frame fs (N + j) (L @ R) = frame fs j R)"
    using frames by blast
  show ?thesis
    unfolding C Let_def L_def [symmetric] R_def [symmetric]
    using ok H frames'
    by (simp add: length_encode decode_encode)
qed

theorem Concat_sequential_witness:
  "valid (opened (wav_header 1 4) [1, 2, 3, 4]) \<and> valid (opened (wav_header 1 2) [5, 6])
   \<and> healthy (data (opened (wav_header 1 4) [1, 2, 3, 4]))
   \<and> healthy (data (opened (wav_header 1 2) [5, 6])) \<and> unlimited buffer
   \<and> checkRequiredParams (opened (wav_header 1 4) [1, 2, 3, 4]) (opened (wav_header 1 2) [5, 6]) = None
   \<and> (case Concat (opened (wav_header 1 4) [1, 2, 3, 4]) (opened (wav_header 1 2) [5, 6]) buffer of
        (err, p', other', output') \<Rightarrow>
          err = None \<and> drop 44 (out output') = [1, 2, 3, 4, 5, 6]
          \<and> NumChannels (decode (take 44 (out output'))) = 1
          \<and> SubChunk2Size (decode (take 44 (out output'))) = 6
          \<and> ChunkSize (decode (take 44 (out output'))) = 42)"
proof -
  let ?p = "opened (wav_header 1 4) [1, 2, 3, 4]" and ?q = "opened (wav_header 1 2) [5, 6]"
  have h1: "valid ?p" and h2: "valid ?q" and h3: "SampleRate ?p = SampleRate ?q"
    and h4: "BitsPerSample ?p = BitsPerSample ?q" and h5: "NumChannels ?p = NumChannels ?q"
    and h6: "healthy (data ?p)" and h7: "healthy (data ?q)" and h8: "unlimited buffer"
    by (simp_all add: opened_simps wav_header_def unlimited_def buffer_def healthy_def)
  have vals: "out buffer = []" "payload (data ?p) = [1, 2, 3, 4]" "payload (data ?q) = [5, 6]"
    "NumChannels ?p = 1" "SubChunk2Size ?p = 4" "SubChunk2Size ?q = 2"
    by (simp_all add: buffer_def opened_simps payload_source wav_header_def)
  obtain err p' other' output' where C: "Concat ?p ?q buffer = (err, p', other', output')"
    by (cases "Concat ?p ?q buffer") auto
  from Concat_sequential [OF h1 h2 h3 h4 h5 h6 h7 h8]
  have "checkRequiredParams ?p ?q = None \<and> err = None
      \<and> drop 44 (out output') = [1, 2, 3, 4, 5, 6]
      \<and> NumChannels (decode (take 44 (out output'))) = 1
      \<and> SubChunk2Size (decode (take 44 (out output'))) = 6
      \<and> ChunkSize (decode (take 44 (out output'))) = 42"
    unfolding Let_def C by (simp add: vals)
  with h1 h2 h6 h7 h8 show ?thesis by (simp add: C)
qed

end
